theory Spec2Isabelle
  imports
    Complex_Main
    "HOL-Library.Sublist"
    "HOL-Library.Char_ord"
    "HOL-Library.List_Lexorder"
    "HOL-Library.Product_Lexorder"
begin

section \<open>Data model\<close>

text \<open>
  The detector works on pandas tables with the columns \<open>date\<close>, \<open>description\<close> and
  \<open>amount\<close>. A table is the list of its rows, in row order. Amounts and mean gaps are
  floats in the source; here they are rationals, so rounding of the float arithmetic is
  not part of the model. A timestamp is the number of its calendar day (dates are taken
  to carry no time of day), so \<open>(b - a).days\<close> is integer subtraction.

  The table handed to \<open>detect_subscriptions\<close> comes from \<open>pd.read_csv\<close> or from the
  PDF parser, where a date is still text, or from \<open>pd.date_range\<close>, where it is a
  timestamp already. A cell of the caller's date column is therefore either of the two.
\<close>

datatype error = ValueError | ZeroDivisionError | IndexError

datatype date_cell = Text string | Timestamp int

record 'd transaction =
  date :: 'd
  description :: string
  amount :: rat

record candidate = "int transaction" +
  category :: string

record subscription = candidate +
  monthly_cost :: rat
  frequency :: string
  last_charge :: int

text \<open>
  The dictionaries appended by \<open>savings_opportunities\<close>, one constructor per value of
  their \<open>type\<close> key. The recommendation of an annual discount, a sentence that formats
  the float with \<open>:.2f\<close>, is left out.
\<close>

datatype opportunity =
    Duplicate_category (opp_category: string) (opp_subscriptions: "string list")
      (opp_monthly_cost: rat) (opp_recommendation: string)
  | Annual_discount (opp_subscription: string) (opp_monthly_cost: rat)
      (opp_annual_savings: rat)

fun opp_type :: "opportunity \<Rightarrow> string" where
  "opp_type (Duplicate_category cat subs mc rec) = ''duplicate_category''"
| "opp_type (Annual_discount sub mc sav) = ''annual_discount''"

section \<open>Configuration of \<open>SubscriptionDetector.__init__\<close>\<close>

definition subscription_keywords :: "string list" where
  "subscription_keywords =
     [''subscription'', ''member'', ''monthly'', ''annual'', ''recurring'',
      ''netflix'', ''spotify'', ''hulu'', ''disney+'', ''amazon prime'',
      ''apple'', ''google'', ''microsoft'', ''adobe'', ''dropbox'', ''icloud'',
      ''hbo'', ''youtube'', ''paramount'', ''peacock'', ''crunchyroll'',
      ''gym'', ''fitness'', ''audible'', ''patreon'', ''onlyfans'',
      ''vpn'', ''domain'', ''hosting'', ''website'', ''cloud'']"

text \<open>The dictionary keeps insertion order; it is the list of its items.\<close>

definition categories :: "(string \<times> string list) list" where
  "categories =
     [(''streaming'', [''netflix'', ''hulu'', ''disney+'', ''hbo'', ''paramount+'',
                       ''peacock'', ''youtube premium'']),
      (''music'', [''spotify'', ''apple music'', ''tidal'', ''pandora'', ''deezer'']),
      (''cloud'', [''dropbox'', ''google one'', ''icloud'', ''onedrive'', ''box'']),
      (''software'', [''adobe'', ''microsoft'', ''autodesk'', ''notion'', ''canva pro'']),
      (''gaming'', [''xbox'', ''playstation'', ''nintendo'', ''steam'', ''epic games'']),
      (''fitness'', [''gym'', ''peloton'', ''fitness'', ''strava'', ''beachbody'']),
      (''news'', [''nyt'', ''wsj'', ''washington post'', ''economist'', ''new yorker'']),
      (''other'', [])]"

section \<open>Strings and numbers of Python\<close>

text \<open>
  \<open>str.lower\<close> on the ASCII letters; every other byte stays. \<open>k in d\<close> on strings
  is \<^const>\<open>sublist\<close>: \<open>k\<close> occurs in \<open>d\<close> as a contiguous run.
\<close>

definition lower_char :: "char \<Rightarrow> char" where
  "lower_char c =
     (let n = (of_char c :: nat) in if 65 \<le> n \<and> n \<le> 90 then char_of (n + 32) else c)"

definition lower :: "string \<Rightarrow> string" where
  "lower s = map lower_char s"

text \<open>\<open>str\<close> of an integer, as the f-string prints it.\<close>

definition digit_char :: "nat \<Rightarrow> char" where
  "digit_char n = char_of (48 + n)"

fun str_nat :: "nat \<Rightarrow> string" where
  "str_nat n = (if n < 10 then [digit_char n] else str_nat (n div 10) @ [digit_char (n mod 10)])"

definition str_int :: "int \<Rightarrow> string" where
  "str_int i = (if i < 0 then CHR ''-'' # str_nat (nat (- i)) else str_nat (nat i))"

text \<open>\<open>round(x)\<close> with one argument: to the nearest integer, a tie to the even one.\<close>

definition py_round :: "rat \<Rightarrow> int" where
  "py_round x =
     (let f = \<lfloor>x\<rfloor>; r = x - of_int f
      in if r < 1 / 2 then f else if 1 / 2 < r then f + 1 else if even f then f else f + 1)"

section \<open>Tables\<close>

text \<open>
  \<open>df.groupby(key)\<close> iterates over the distinct keys in ascending order; each group
  holds the rows of that key in row order. \<open>drop_duplicates\<close> keeps the first of equal
  rows. \<open>sort_values('date')\<close> is \<^const>\<open>sort_key\<close>, which leaves rows of equal date
  in their order; pandas' default sort promises no order among them.
\<close>

definition groupby :: "('a \<Rightarrow> 'k::linorder) \<Rightarrow> 'a list \<Rightarrow> ('k \<times> 'a list) list" where
  "groupby key df = map (\<lambda>k. (k, filter (\<lambda>r. key r = k) df)) (sort (remdups (map key df)))"

fun drop_duplicates :: "'a list \<Rightarrow> 'a list" where
  "drop_duplicates [] = []"
| "drop_duplicates (x # xs) = x # drop_duplicates (filter (\<lambda>y. y \<noteq> x) xs)"

definition intervals_of :: "int list \<Rightarrow> int list" where
  "intervals_of dates = map (\<lambda>i. dates ! (i + 1) - dates ! i) [0..<length dates - 1]"

text \<open>
  \<open>sum(intervals) / len(intervals)\<close>. Both callers reach it with at least one
  interval only, so the division by an empty list's length never happens.
\<close>

definition average :: "int list \<Rightarrow> rat" where
  "average intervals = of_int (sum_list intervals) / of_nat (length intervals)"

section \<open>\<open>SubscriptionDetector\<close>\<close>

subsection \<open>\<open>_find_keyword_matches\<close>\<close>

definition find_keyword_matches :: "int transaction list \<Rightarrow> int transaction list" where
  "find_keyword_matches df =
     filter (\<lambda>t. list_ex (\<lambda>keyword. sublist keyword (lower (lower (description t))))
                         subscription_keywords) df"

subsection \<open>\<open>_find_recurring_patterns\<close>\<close>

text \<open>The body of the loop over the groups: the rows one group appends to \<open>recurring\<close>.\<close>

definition is_consistent :: "int list \<Rightarrow> bool" where
  "is_consistent intervals =
     list_all (\<lambda>interval. \<bar>of_int interval - average intervals\<bar> \<le> 5) intervals"

definition is_subscription_period :: "rat \<Rightarrow> bool" where
  "is_subscription_period avg_interval =
     ((25 \<le> avg_interval \<and> avg_interval \<le> 35) \<or> (350 \<le> avg_interval \<and> avg_interval \<le> 380))"

definition recurring_of_group :: "int transaction list \<Rightarrow> int transaction list" where
  "recurring_of_group grp =
     (if 2 \<le> length grp then
        (let sorted_group = sort_key date grp;
             dates = map date sorted_group;
             intervals = intervals_of dates
         in if 1 \<le> length intervals then
              (if is_consistent intervals \<and> is_subscription_period (average intervals)
               then [hd sorted_group] else [])
            else [])
      else [])"

definition find_recurring_patterns :: "int transaction list \<Rightarrow> int transaction list" where
  "find_recurring_patterns df =
     concat (map (\<lambda>(k, grp). recurring_of_group grp)
                 (groupby (\<lambda>t. (description t, amount t)) df))"

subsection \<open>\<open>_categorize_subscription\<close>\<close>

fun categorize_loop :: "(string \<times> string list) list \<Rightarrow> string \<Rightarrow> string" where
  "categorize_loop [] d = ''other''"
| "categorize_loop ((cat, keywords) # rest) d =
     (if list_ex (\<lambda>keyword. sublist keyword d) keywords then cat else categorize_loop rest d)"

definition categorize_subscription :: "string \<Rightarrow> string" where
  "categorize_subscription d = categorize_loop categories (lower d)"

subsection \<open>\<open>_calculate_monthly_cost\<close>\<close>

text \<open>
  A row of the result: the chosen row of the group with the three new columns.
  \<open>30 / avg_interval\<close> divides Python floats, which raises \<open>ZeroDivisionError\<close> at
  zero; \<open>iloc[0]\<close> raises \<open>IndexError\<close> on an empty group.
\<close>

definition with_cost :: "candidate \<Rightarrow> rat \<Rightarrow> string \<Rightarrow> int \<Rightarrow> subscription" where
  "with_cost row mc f lc =
     \<lparr>date = date row, description = description row, amount = amount row,
      category = category row, monthly_cost = mc, frequency = f, last_charge = lc\<rparr>"

definition single_occurrence :: "candidate list \<Rightarrow> error + subscription" where
  "single_occurrence grp =
     (case grp of
        [] \<Rightarrow> Inl IndexError
      | row # _ \<Rightarrow> Inr (with_cost row (amount row) ''unknown'' (date row)))"

definition cost_of_group :: "candidate list \<Rightarrow> error + subscription" where
  "cost_of_group grp =
     (if 2 \<le> length grp then
        (let sorted_group = sort_key date grp;
             dates = map date sorted_group
         in if 2 \<le> length dates then
              (let intervals = intervals_of dates;
                   avg_interval = average intervals;
                   amt = amount (last sorted_group);
                   row = last sorted_group;
                   lc = Max (set (map date sorted_group))
               in if 25 \<le> avg_interval \<and> avg_interval \<le> 35 then
                    Inr (with_cost row amt ''monthly'' lc)
                  else if 350 \<le> avg_interval \<and> avg_interval \<le> 380 then
                    Inr (with_cost row (amt / 12) ''annual'' lc)
                  else if avg_interval = 0 then Inl ZeroDivisionError
                  else
                    Inr (with_cost row (amt * (30 / avg_interval))
                          (''every '' @ str_int (py_round avg_interval) @ '' days'') lc))
            else single_occurrence grp)
      else single_occurrence grp)"

fun cost_loop ::
  "(string \<times> candidate list) list \<Rightarrow> subscription list \<Rightarrow> error + subscription list" where
  "cost_loop [] results = Inr results"
| "cost_loop ((desc, grp) # rest) results =
     (case cost_of_group grp of
        Inl e \<Rightarrow> Inl e
      | Inr row \<Rightarrow> cost_loop rest (results @ [row]))"

definition calculate_monthly_cost :: "candidate list \<Rightarrow> error + subscription list" where
  "calculate_monthly_cost subscriptions_df = cost_loop (groupby description subscriptions_df) []"

subsection \<open>\<open>detect_subscriptions\<close>\<close>

text \<open>
  \<open>pd.to_datetime\<close> is pandas' own; how it reads a text is the parameter \<open>parse\<close>
  (\<open>None\<close> where it raises). A timestamp is returned as it is.
\<close>

fun to_datetime_cell :: "(string \<Rightarrow> int option) \<Rightarrow> date_cell \<Rightarrow> int option" where
  "to_datetime_cell parse (Timestamp d) = Some d"
| "to_datetime_cell parse (Text s) = parse s"

fun to_datetime :: "(string \<Rightarrow> int option) \<Rightarrow> date_cell list \<Rightarrow> error + int list" where
  "to_datetime parse [] = Inr []"
| "to_datetime parse (c # cs) =
     (case to_datetime_cell parse c of
        None \<Rightarrow> Inl ValueError
      | Some d \<Rightarrow> (case to_datetime parse cs of Inl e \<Rightarrow> Inl e | Inr ds \<Rightarrow> Inr (d # ds)))"

text \<open>
  Assigning the converted column to \<open>transactions_df['date']\<close> writes into the caller's
  table: \<open>set_date_column\<close> is that table afterwards, and \<open>typed\<close> the same table as
  the rest of the pipeline reads it, every date a timestamp.
\<close>

definition set_date_column ::
  "date_cell transaction list \<Rightarrow> int list \<Rightarrow> date_cell transaction list" where
  "set_date_column df ds = map2 (\<lambda>t d. t\<lparr>date := Timestamp d\<rparr>) df ds"

definition typed :: "date_cell transaction list \<Rightarrow> int list \<Rightarrow> int transaction list" where
  "typed df ds =
     map2 (\<lambda>t d. \<lparr>date = d, description = description t, amount = amount t\<rparr>) df ds"

definition add_category :: "int transaction \<Rightarrow> candidate" where
  "add_category t =
     \<lparr>date = date t, description = description t, amount = amount t,
      category = categorize_subscription (description t)\<rparr>"

text \<open>Lines 36 to 50, on the table with its dates converted.\<close>

definition detect_on :: "int transaction list \<Rightarrow> error + subscription list" where
  "detect_on df =
     (let potential_subs = find_keyword_matches df;
          recurring_patterns = find_recurring_patterns df;
          subscriptions = drop_duplicates (potential_subs @ recurring_patterns);
          subscriptions = map add_category subscriptions
      in calculate_monthly_cost subscriptions)"

text \<open>
  The whole method: the caller's table as it is left, and the table returned or the
  exception raised. An exception of \<open>pd.to_datetime\<close> leaves the table as it was.
\<close>

definition detect_subscriptions ::
  "(string \<Rightarrow> int option) \<Rightarrow> date_cell transaction list
     \<Rightarrow> date_cell transaction list \<times> (error + subscription list)" where
  "detect_subscriptions parse transactions_df =
     (case to_datetime parse (map date transactions_df) of
        Inl e \<Rightarrow> (transactions_df, Inl e)
      | Inr ds \<Rightarrow> (set_date_column transactions_df ds, detect_on (typed transactions_df ds)))"

section \<open>\<open>SubscriptionVisualizer.savings_opportunities\<close>\<close>

definition duplicate_opportunity :: "subscription list \<Rightarrow> string \<Rightarrow> opportunity" where
  "duplicate_opportunity subscriptions_df cat =
     (let category_subs = filter (\<lambda>s. category s = cat) subscriptions_df
      in Duplicate_category cat (map description category_subs)
           (sum_list (map monthly_cost category_subs))
           (''Consider consolidating '' @ cat @ '' subscriptions''))"

definition annual_opportunity :: "subscription \<Rightarrow> opportunity list" where
  "annual_opportunity sub =
     (let potential_annual_savings = monthly_cost sub * 12 * (15 / 100)
      in if 20 < potential_annual_savings then
           [Annual_discount (description sub) (monthly_cost sub) potential_annual_savings]
         else [])"

definition savings_opportunities :: "subscription list \<Rightarrow> opportunity list" where
  "savings_opportunities subscriptions_df =
     (let category_counts = map (\<lambda>(cat, grp). (cat, length grp))
                                (groupby category subscriptions_df);
          duplicate_categories = map fst (filter (\<lambda>(cat, count). 1 < count) category_counts);
          monthly_subs = filter (\<lambda>s. frequency s = ''monthly'') subscriptions_df
      in map (duplicate_opportunity subscriptions_df) duplicate_categories
         @ concat (map annual_opportunity monthly_subs))"

section \<open>Facts about tables and groups\<close>

lemma groupby_keys: "map fst (groupby key df) = sort (remdups (map key df))"
  by (simp add: groupby_def comp_def)

lemma groupby_keys_distinct: "distinct (map fst (groupby key df))"
  by (simp add: groupby_keys)

lemma groupby_keys_set: "set (map fst (groupby key df)) = key ` set df"
  by (simp add: groupby_keys)

lemma groupby_member:
  "(k, g) \<in> set (groupby key df) \<Longrightarrow> g = filter (\<lambda>r. key r = k) df \<and> k \<in> key ` set df \<and> g \<noteq> []"
  by (auto simp: groupby_def filter_empty_conv)

lemma filter_concat_distinct:
  assumes "distinct ks" and "\<And>k t. t \<in> set (F k) \<Longrightarrow> key t = k"
  shows "filter (\<lambda>t. key t = k0) (concat (map F ks)) = (if k0 \<in> set ks then F k0 else [])"
  using assms(1)
proof (induction ks)
  case Nil
  then show ?case by simp
next
  case (Cons k ks)
  have own: "filter (\<lambda>t. key t = k0) (F k0) = F k0"
    using assms(2) by (simp add: filter_id_conv)
  have other: "filter (\<lambda>t. key t = k0) (F k) = []" if "k \<noteq> k0"
    using assms(2) that by (auto simp: filter_empty_conv)
  show ?case
  proof (cases "k = k0")
    case True
    with Cons.prems have "k0 \<notin> set ks" "distinct ks" by auto
    with Cons.IH have "filter (\<lambda>t. key t = k0) (concat (map F ks)) = []" by simp
    with True own show ?thesis by simp
  next
    case False
    from Cons.prems have "distinct ks" by simp
    with Cons.IH have "filter (\<lambda>t. key t = k0) (concat (map F ks)) = (if k0 \<in> set ks then F k0 else [])"
      by simp
    with False other show ?thesis by simp
  qed
qed

lemma filter_concat_groupby:
  assumes own: "\<And>k t. t \<in> set (F (filter (\<lambda>r. key r = k) df)) \<Longrightarrow> key t = k"
    and nil: "F [] = []"
  shows "filter (\<lambda>t. key t = k0) (concat (map (\<lambda>(k, g). F g) (groupby key df)))
         = F (filter (\<lambda>r. key r = k0) df)"
proof -
  let ?G = "\<lambda>k. F (filter (\<lambda>r. key r = k) df)"
  let ?ks = "sort (remdups (map key df))"
  have c: "concat (map (\<lambda>(k, g). F g) (groupby key df)) = concat (map ?G ?ks)"
    by (simp add: groupby_def comp_def)
  have d: "distinct ?ks" by simp
  have f: "filter (\<lambda>t. key t = k0) (concat (map ?G ?ks)) = (if k0 \<in> set ?ks then ?G k0 else [])"
    using d own by (rule filter_concat_distinct)
  show ?thesis
  proof (cases "k0 \<in> key ` set df")
    case True
    then have "k0 \<in> set ?ks" by simp
    with c f show ?thesis by simp
  next
    case False
    then have "filter (\<lambda>r. key r = k0) df = []" by (auto simp: filter_empty_conv)
    moreover from False have "k0 \<notin> set ?ks" by simp
    ultimately show ?thesis using c f nil by simp
  qed
qed

lemma set_drop_duplicates: "set (drop_duplicates xs) = set xs"
  by (induction xs rule: drop_duplicates.induct) auto

lemma distinct_drop_duplicates: "distinct (drop_duplicates xs)"
  by (induction xs rule: drop_duplicates.induct) (auto simp: set_drop_duplicates)

lemma filter_distinct_key:
  "distinct (map f xs) \<Longrightarrow> x \<in> set xs \<Longrightarrow> filter (\<lambda>y. f y = f x) xs = [x]"
proof (induction xs)
  case Nil
  then show ?case by simp
next
  case (Cons a xs)
  show ?case
  proof (cases "a = x")
    case True
    with Cons.prems have "f x \<notin> f ` set xs" by simp
    then have "\<forall>y \<in> set xs. f y \<noteq> f x" by (metis imageI)
    then have "filter (\<lambda>y. f y = f x) xs = []" by (simp add: filter_empty_conv)
    with True show ?thesis by simp
  next
    case False
    with Cons.prems have "x \<in> set xs" "f a \<noteq> f x" by auto
    with Cons show ?thesis by simp
  qed
qed


lemma cost_loop_Inr:
  "cost_loop gs acc = Inr rows \<Longrightarrow>
     \<exists>rs. rows = acc @ rs \<and> map (\<lambda>(d, g). cost_of_group g) gs = map Inr rs"
proof (induction gs arbitrary: acc)
  case Nil
  then show ?case by simp
next
  case (Cons p gs)
  obtain d g where p: "p = (d, g)" by (cases p)
  from Cons.prems p obtain row where row: "cost_of_group g = Inr row"
    and rest: "cost_loop gs (acc @ [row]) = Inr rows"
    by (auto split: sum.splits)
  from Cons.IH [OF rest] obtain rs where "rows = (acc @ [row]) @ rs"
    and "map (\<lambda>(d, g). cost_of_group g) gs = map Inr rs" by blast
  with p row have "rows = acc @ (row # rs) \<and>
      map (\<lambda>(d, g). cost_of_group g) (p # gs) = map Inr (row # rs)" by simp
  then show ?case by blast
qed

lemma cost_loop_Inl:
  "cost_loop gs acc = Inl e \<Longrightarrow> \<exists>(d, g) \<in> set gs. cost_of_group g = Inl e"
proof (induction gs arbitrary: acc)
  case Nil
  then show ?case by simp
next
  case (Cons p gs)
  obtain d g where p: "p = (d, g)" by (cases p)
  show ?case
  proof (cases "cost_of_group g")
    case (Inl e')
    with Cons.prems p show ?thesis by simp
  next
    case (Inr row)
    with Cons.prems p have "cost_loop gs (acc @ [row]) = Inl e" by simp
    from Cons.IH [OF this] show ?thesis by auto
  qed
qed

lemma last_sort_key_in: "g \<noteq> [] \<Longrightarrow> last (sort_key f g) \<in> set g"
proof -
  assume "g \<noteq> []"
  then have "sort_key f g \<noteq> []" by (metis length_0_conv length_sort)
  then have "last (sort_key f g) \<in> set (sort_key f g)" by (rule last_in_set)
  then show ?thesis by simp
qed

lemma hd_sort_key_in: "g \<noteq> [] \<Longrightarrow> hd (sort_key f g) \<in> set g"
proof -
  assume "g \<noteq> []"
  then have "sort_key f g \<noteq> []" by (metis length_0_conv length_sort)
  then have "hd (sort_key f g) \<in> set (sort_key f g)" by (rule hd_in_set)
  then show ?thesis by simp
qed

lemma cost_of_group_description:
  assumes "cost_of_group g = Inr r"
  shows "\<exists>c \<in> set g. description r = description c"
proof (cases g)
  case Nil
  with assms show ?thesis by (simp add: cost_of_group_def single_occurrence_def)
next
  case (Cons c cs)
  then have ne: "g \<noteq> []" by simp
  have l: "last (sort_key date g) \<in> set g" using ne by (rule last_sort_key_in)
  have "description r = description (last (sort_key date g)) \<or> description r = description c"
    using assms Cons
    by (auto simp: cost_of_group_def single_occurrence_def with_cost_def Let_def
        split: if_splits)
  with l Cons show ?thesis by auto
qed

lemma cost_of_group_error:
  "cost_of_group g = Inl e \<Longrightarrow> g \<noteq> [] \<Longrightarrow> e = ZeroDivisionError"
  by (cases g) (auto simp: cost_of_group_def single_occurrence_def Let_def split: if_splits)

lemma calculate_rows:
  assumes "calculate_monthly_cost subs = Inr rows"
  shows "map description rows = sort (remdups (map description subs))"
    and "r \<in> set rows \<Longrightarrow>
           cost_of_group (filter (\<lambda>c. description c = description r) subs) = Inr r"
proof -
  let ?ks = "sort (remdups (map description subs))"
  let ?G = "\<lambda>k. filter (\<lambda>c. description c = k) subs"
  from assms have "cost_loop (groupby description subs) [] = Inr rows"
    by (simp add: calculate_monthly_cost_def)
  from cost_loop_Inr [OF this]
  have "map (\<lambda>(d, g). cost_of_group g) (groupby description subs) = map Inr rows" by simp
  then have m: "map (\<lambda>k. cost_of_group (?G k)) ?ks = map Inr rows"
    by (simp add: groupby_def comp_def)
  then have len: "length ?ks = length rows" by (rule map_eq_imp_length_eq)
  have at: "cost_of_group (?G (?ks ! i)) = Inr (rows ! i)" if "i < length rows" for i
  proof -
    from that len have "map (\<lambda>k. cost_of_group (?G k)) ?ks ! i = cost_of_group (?G (?ks ! i))"
      by simp
    moreover from that have "map Inr rows ! i = (Inr (rows ! i) :: error + subscription)"
      by simp
    ultimately show ?thesis using m by simp
  qed
  have key: "description (rows ! i) = ?ks ! i" if "i < length rows" for i
  proof -
    from cost_of_group_description [OF at [OF that]]
    obtain c where "c \<in> set (?G (?ks ! i))" "description (rows ! i) = description c" by blast
    then show ?thesis by simp
  qed
  show ks: "map description rows = ?ks"
  proof (rule nth_equalityI)
    show "length (map description rows) = length ?ks" using len by simp
    show "map description rows ! i = ?ks ! i" if "i < length (map description rows)" for i
      using that key [of i] by simp
  qed
  show "cost_of_group (?G (description r)) = Inr r" if "r \<in> set rows"
  proof -
    from that obtain i where "i < length rows" "rows ! i = r" by (auto simp: in_set_conv_nth)
    with at [of i] key [of i] show ?thesis by simp
  qed
qed

lemma length_intervals_of: "length (intervals_of dates) = length dates - 1"
  by (simp add: intervals_of_def)

lemma intervals_of_sorted_nonneg:
  assumes "sorted dates" and "gap \<in> set (intervals_of dates)"
  shows "0 \<le> gap"
proof -
  from assms(2) obtain i where i: "i < length dates - 1" and g: "gap = dates ! (i + 1) - dates ! i"
    by (auto simp: intervals_of_def)
  from i have "i \<le> i + 1" "i + 1 < length dates" by simp_all
  with assms(1) have "dates ! i \<le> dates ! (i + 1)" by (rule sorted_nth_mono)
  with g show ?thesis by simp
qed

lemma average_nonneg: "\<forall>gap \<in> set intervals. 0 \<le> gap \<Longrightarrow> 0 \<le> average intervals"
proof -
  assume "\<forall>gap \<in> set intervals. 0 \<le> gap"
  then have "0 \<le> sum_list intervals" by (simp add: sum_list_nonneg)
  then show ?thesis by (simp add: average_def)
qed

lemma mean_gap_nonneg: "0 \<le> average (intervals_of (map date (sort_key date g)))"
proof -
  have "sorted (map date (sort_key date g))" by (rule sorted_sort_key)
  then have "\<forall>gap \<in> set (intervals_of (map date (sort_key date g))). 0 \<le> gap"
    using intervals_of_sorted_nonneg by blast
  then show ?thesis by (rule average_nonneg)
qed

lemma row_of_description:
  assumes calc: "calculate_monthly_cost subs = Inr rows"
    and d: "d \<in> description ` set subs"
  shows "\<exists>r. filter (\<lambda>r. description r = d) rows = [r] \<and>
             cost_of_group (filter (\<lambda>c. description c = d) subs) = Inr r"
proof -
  from calculate_rows(1) [OF calc] have m: "map description rows = sort (remdups (map description subs))" .
  then have dist: "distinct (map description rows)" by simp
  from m have "set (map description rows) = description ` set subs" by simp
  with d have "d \<in> set (map description rows)" by simp
  then have "\<exists>r \<in> set rows. description r = d" by (simp add: image_iff) blast
  then obtain r where r: "r \<in> set rows" "description r = d" by blast
  from filter_distinct_key [OF dist r(1)] r(2)
  have "filter (\<lambda>r. description r = d) rows = [r]" by simp
  moreover from calculate_rows(2) [OF calc r(1)] r(2)
  have "cost_of_group (filter (\<lambda>c. description c = d) subs) = Inr r" by simp
  ultimately show ?thesis by blast
qed

lemma detect_subscriptions_Inr:
  assumes "snd (detect_subscriptions parse df) = Inr rows"
  shows "\<exists>ds. to_datetime parse (map date df) = Inr ds \<and>
           calculate_monthly_cost (map add_category (drop_duplicates
             (find_keyword_matches (typed df ds) @ find_recurring_patterns (typed df ds))))
           = Inr rows"
  using assms
  by (cases "to_datetime parse (map date df)")
     (simp_all add: detect_subscriptions_def detect_on_def Let_def)

lemma description_add_category: "description (add_category t) = description t"
  by (simp add: add_category_def)

lemma py_round_nonneg: "0 \<le> x \<Longrightarrow> 0 \<le> py_round x"
proof -
  assume "0 \<le> x"
  then have "0 \<le> \<lfloor>x\<rfloor>" by simp
  then show ?thesis by (simp add: py_round_def Let_def)
qed

section \<open>The monthly-cost computation\<close>

text \<open>
  Claim C1. A description with two or more candidate rows whose mean day-gap is zero or
  negative should get frequency \<open>unknown\<close>, with no division by the mean gap. The
  source has no such guard: the mean gap of a sorted group is never negative, and where
  it is zero the third branch evaluates \<open>30 / avg_interval\<close>, so the whole call raises
  \<open>ZeroDivisionError\<close> and no table is returned.
\<close>

theorem zero_mean_gap_raises:
  assumes "2 \<le> length (filter (\<lambda>c. description c = d) subs)"
    and "average (intervals_of (map date (sort_key date (filter (\<lambda>c. description c = d) subs)))) \<le> 0"
  shows "calculate_monthly_cost subs = Inl ZeroDivisionError"
proof -
  let ?g = "filter (\<lambda>c. description c = d) subs"
  from assms(2) mean_gap_nonneg [of ?g]
  have z: "average (intervals_of (map date (sort_key date ?g))) = 0" by simp
  with assms(1) have raise: "cost_of_group ?g = Inl ZeroDivisionError"
    by (simp add: cost_of_group_def Let_def)
  from assms(1) have "?g \<noteq> []" by auto
  then have d: "d \<in> description ` set subs" by (auto simp: filter_empty_conv)
  show ?thesis
  proof (cases "calculate_monthly_cost subs")
    case (Inr rows)
    from row_of_description [OF Inr d] raise show ?thesis by simp
  next
    case (Inl e)
    then have "cost_loop (groupby description subs) [] = Inl e"
      by (simp add: calculate_monthly_cost_def)
    from cost_loop_Inl [OF this] obtain k g where "(k, g) \<in> set (groupby description subs)"
      and e: "cost_of_group g = Inl e" by auto
    from groupby_member [OF this(1)] have "g \<noteq> []" by blast
    with e have "e = ZeroDivisionError" by (rule cost_of_group_error)
    with Inl show ?thesis by simp
  qed
qed

theorem zero_mean_gap_raises_witness:
  "2 \<le> length (filter (\<lambda>c. description c = ''NETFLIX.COM'')
       [\<lparr>date = 19358, description = ''NETFLIX.COM'', amount = 1549 / 100, category = ''streaming''\<rparr>,
        \<lparr>date = 19358, description = ''NETFLIX.COM'', amount = 999 / 100, category = ''streaming''\<rparr>])
   \<and> calculate_monthly_cost
       [\<lparr>date = 19358, description = ''NETFLIX.COM'', amount = 1549 / 100, category = ''streaming''\<rparr>,
        \<lparr>date = 19358, description = ''NETFLIX.COM'', amount = 999 / 100, category = ''streaming''\<rparr>]
     = Inl ZeroDivisionError"
proof -
  let ?subs = "[\<lparr>date = 19358, description = ''NETFLIX.COM'', amount = 1549 / 100, category = ''streaming''\<rparr>,
        \<lparr>date = 19358, description = ''NETFLIX.COM'', amount = 999 / 100, category = ''streaming''\<rparr>]"
  have h1: "2 \<le> length (filter (\<lambda>c. description c = ''NETFLIX.COM'') ?subs)" by simp
  have h2: "average (intervals_of (map date (sort_key date
      (filter (\<lambda>c. description c = ''NETFLIX.COM'') ?subs)))) \<le> 0"
    by (simp add: average_def intervals_of_def)
  from h1 zero_mean_gap_raises [OF h1 h2] show ?thesis by simp
qed

text \<open>
  The same on the whole method, for two charges of one day that differ in the amount:
  both match the keyword \<open>netflix\<close> and neither is a duplicate row of the other.
\<close>

lemma detect_subscriptions_same_day_raises:
  "snd (detect_subscriptions (\<lambda>s. None)
     [\<lparr>date = Timestamp 19358, description = ''NETFLIX.COM'', amount = 1549 / 100\<rparr>,
      \<lparr>date = Timestamp 19358, description = ''NETFLIX.COM'', amount = 999 / 100\<rparr>])
   = Inl ZeroDivisionError"
  by code_simp



section \<open>The recurrence analysis\<close>

lemma recurring_of_group_Nil: "recurring_of_group [] = []"
  by (simp add: recurring_of_group_def)

lemma recurring_of_group_subset: "t \<in> set (recurring_of_group g) \<Longrightarrow> t \<in> set g"
proof -
  assume t: "t \<in> set (recurring_of_group g)"
  then have "2 \<le> length g" by (auto simp: recurring_of_group_def split: if_splits)
  then have "g \<noteq> []" by auto
  then have "hd (sort_key date g) \<in> set g" by (rule hd_sort_key_in)
  moreover from t have "t = hd (sort_key date g)"
    by (auto simp: recurring_of_group_def Let_def split: if_splits)
  ultimately show ?thesis by simp
qed

lemma hd_sort_key_least:
  assumes "t \<in> set g"
  shows "f (hd (sort_key f g)) \<le> f t"
proof -
  have s: "sorted (map f (sort_key f g))" by (rule sorted_sort_key)
  from assms have t: "t \<in> set (sort_key f g)" by simp
  show ?thesis
  proof (cases "sort_key f g")
    case Nil
    with t show ?thesis by simp
  next
    case (Cons x xs)
    with s t show ?thesis by auto
  qed
qed

text \<open>
  Claim C3. Of a group of at least two transactions with the same description and
  amount, \<open>_find_recurring_patterns\<close> emits the earliest transaction, and nothing else,
  exactly when every gap between consecutive dates is within 5 days of the mean gap and
  the mean gap lies in [25,35] or in [350,380]; a group of one transaction emits
  nothing.
\<close>

theorem recurring_patterns_of_pair:
  assumes "grp = filter (\<lambda>t. description t = d \<and> amount t = a) df"
    and "sorted_group = sort_key date grp"
    and "gaps = intervals_of (map date sorted_group)"
  shows "filter (\<lambda>t. description t = d \<and> amount t = a) (find_recurring_patterns df) =
      (if 2 \<le> length grp \<and> (\<forall>gap \<in> set gaps. \<bar>of_int gap - average gaps\<bar> \<le> 5) \<and>
          (25 \<le> average gaps \<and> average gaps \<le> 35 \<or> 350 \<le> average gaps \<and> average gaps \<le> 380)
       then [hd sorted_group] else [])
    \<and> (\<forall>t \<in> set grp. date (hd sorted_group) \<le> date t)"
proof -
  let ?key = "\<lambda>t :: int transaction. (description t, amount t)"
  have k: "(\<lambda>t :: int transaction. description t = d \<and> amount t = a) = (\<lambda>t. ?key t = (d, a))"
    by auto
  have own: "?key t = k" if "t \<in> set (recurring_of_group (filter (\<lambda>r. ?key r = k) df))" for k t
  proof -
    from that have "t \<in> set (filter (\<lambda>r. ?key r = k) df)" by (rule recurring_of_group_subset)
    then show ?thesis by simp
  qed
  have "filter (\<lambda>t. ?key t = (d, a))
          (concat (map (\<lambda>(k, g). recurring_of_group g) (groupby ?key df)))
        = recurring_of_group (filter (\<lambda>r. ?key r = (d, a)) df)"
    using own recurring_of_group_Nil by (rule filter_concat_groupby)
  then have "filter (\<lambda>t. description t = d \<and> amount t = a) (find_recurring_patterns df)
        = recurring_of_group grp"
    by (simp add: find_recurring_patterns_def assms(1))
  moreover have "recurring_of_group grp =
      (if 2 \<le> length grp \<and> (\<forall>gap \<in> set gaps. \<bar>of_int gap - average gaps\<bar> \<le> 5) \<and>
          (25 \<le> average gaps \<and> average gaps \<le> 35 \<or> 350 \<le> average gaps \<and> average gaps \<le> 380)
       then [hd sorted_group] else [])"
  proof (cases "2 \<le> length grp")
    case True
    then have "1 \<le> length (intervals_of (map date (sort_key date grp)))"
      by (simp add: length_intervals_of)
    with True show ?thesis
      by (simp add: recurring_of_group_def Let_def is_consistent_def list_all_iff
          is_subscription_period_def assms(2,3))
  next
    case False
    then show ?thesis by (simp add: recurring_of_group_def)
  qed
  moreover have "\<forall>t \<in> set grp. date (hd sorted_group) \<le> date t"
    by (simp add: assms(2) hd_sort_key_least)
  ultimately show ?thesis by simp
qed

theorem recurring_patterns_of_pair_witness:
  "filter (\<lambda>t. description t = ''ACME STORAGE'' \<and> amount t = 25)
     (find_recurring_patterns
        [\<lparr>date = 19358, description = ''NETFLIX.COM'', amount = 1549 / 100\<rparr>,
         \<lparr>date = 19390, description = ''ACME STORAGE'', amount = 25\<rparr>,
         \<lparr>date = 19398, description = ''NETFLIX.COM'', amount = 1549 / 100\<rparr>,
         \<lparr>date = 19360, description = ''ACME STORAGE'', amount = 25\<rparr>,
         \<lparr>date = 19418, description = ''NETFLIX.COM'', amount = 1549 / 100\<rparr>])
   = [\<lparr>date = 19360, description = ''ACME STORAGE'', amount = 25\<rparr>]
   \<and> filter (\<lambda>t. description t = ''NETFLIX.COM'' \<and> amount t = 1549 / 100)
     (find_recurring_patterns
        [\<lparr>date = 19358, description = ''NETFLIX.COM'', amount = 1549 / 100\<rparr>,
         \<lparr>date = 19390, description = ''ACME STORAGE'', amount = 25\<rparr>,
         \<lparr>date = 19398, description = ''NETFLIX.COM'', amount = 1549 / 100\<rparr>,
         \<lparr>date = 19360, description = ''ACME STORAGE'', amount = 25\<rparr>,
         \<lparr>date = 19418, description = ''NETFLIX.COM'', amount = 1549 / 100\<rparr>])
   = []"
proof -
  let ?df = "[\<lparr>date = 19358, description = ''NETFLIX.COM'', amount = 1549 / 100\<rparr>,
         \<lparr>date = 19390, description = ''ACME STORAGE'', amount = 25\<rparr>,
         \<lparr>date = 19398, description = ''NETFLIX.COM'', amount = 1549 / 100\<rparr>,
         \<lparr>date = 19360, description = ''ACME STORAGE'', amount = 25\<rparr>,
         \<lparr>date = 19418, description = ''NETFLIX.COM'', amount = 1549 / 100\<rparr>] :: int transaction list"
  have "filter (\<lambda>t. description t = ''ACME STORAGE'' \<and> amount t = 25) (find_recurring_patterns ?df)
      = [\<lparr>date = 19360, description = ''ACME STORAGE'', amount = 25\<rparr>]"
    using recurring_patterns_of_pair [OF refl refl refl, of "''ACME STORAGE''" 25 ?df]
    by (simp add: intervals_of_def average_def)
  moreover
  have "filter (\<lambda>t. description t = ''NETFLIX.COM'' \<and> amount t = 1549 / 100) (find_recurring_patterns ?df)
      = []"
    using recurring_patterns_of_pair [OF refl refl refl, of "''NETFLIX.COM''" "1549 / 100" ?df]
    by (simp add: intervals_of_def average_def)
  ultimately show ?thesis by simp
qed

section \<open>One row per description\<close>

text \<open>
  Claim C4. The table returned by \<open>detect_subscriptions\<close> has exactly one row for each
  description that occurs among the keyword matches and the recurring patterns, and no
  two of its rows share a description.
\<close>

theorem one_row_per_description:
  assumes "to_datetime parse (map date df) = Inr ds"
    and "snd (detect_subscriptions parse df) = Inr rows"
  shows "distinct (map description rows) \<and>
         set (map description rows) =
           description ` (set (find_keyword_matches (typed df ds))
                          \<union> set (find_recurring_patterns (typed df ds)))"
proof -
  let ?cands = "drop_duplicates
      (find_keyword_matches (typed df ds) @ find_recurring_patterns (typed df ds))"
  from detect_subscriptions_Inr [OF assms(2)] assms(1)
  have calc: "calculate_monthly_cost (map add_category ?cands) = Inr rows" by simp
  from calculate_rows(1) [OF calc]
  have m: "map description rows = sort (remdups (map description (map add_category ?cands)))" .
  then have "distinct (map description rows)" by simp
  moreover have "map description (map add_category ?cands) = map description ?cands"
    by (simp add: description_add_category)
  with m have "set (map description rows) = set (map description ?cands)"
    by (simp only: set_sort set_remdups)
  then have "set (map description rows) = description ` set ?cands"
    by simp
  then have "set (map description rows) =
           description ` (set (find_keyword_matches (typed df ds))
                          \<union> set (find_recurring_patterns (typed df ds)))"
    by (simp add: set_drop_duplicates)
  ultimately show ?thesis by blast
qed

theorem one_row_per_description_witness:
  "snd (detect_subscriptions (\<lambda>s. None)
     [\<lparr>date = Timestamp 19358, description = ''NETFLIX.COM'', amount = 1549 / 100\<rparr>,
      \<lparr>date = Timestamp 19360, description = ''ACME STORAGE'', amount = 25\<rparr>,
      \<lparr>date = Timestamp 19365, description = ''GROCERY STORE'', amount = 50\<rparr>,
      \<lparr>date = Timestamp 19389, description = ''NETFLIX.COM'', amount = 1549 / 100\<rparr>,
      \<lparr>date = Timestamp 19390, description = ''ACME STORAGE'', amount = 25\<rparr>,
      \<lparr>date = Timestamp 19419, description = ''NETFLIX.COM'', amount = 1549 / 100\<rparr>])
   = Inr [\<lparr>date = 19360, description = ''ACME STORAGE'', amount = 25,
            category = ''other'', monthly_cost = 25, frequency = ''unknown'',
            last_charge = 19360\<rparr>,
          \<lparr>date = 19419, description = ''NETFLIX.COM'', amount = 1549 / 100,
            category = ''streaming'', monthly_cost = 1549 / 100,
            frequency = ''monthly'', last_charge = 19419\<rparr>]
   \<and> description `
       (set (find_keyword_matches
          [\<lparr>date = 19358, description = ''NETFLIX.COM'', amount = 1549 / 100\<rparr>,
           \<lparr>date = 19360, description = ''ACME STORAGE'', amount = 25\<rparr>,
           \<lparr>date = 19365, description = ''GROCERY STORE'', amount = 50\<rparr>,
           \<lparr>date = 19389, description = ''NETFLIX.COM'', amount = 1549 / 100\<rparr>,
           \<lparr>date = 19390, description = ''ACME STORAGE'', amount = 25\<rparr>,
           \<lparr>date = 19419, description = ''NETFLIX.COM'', amount = 1549 / 100\<rparr>])
        \<union> set (find_recurring_patterns
          [\<lparr>date = 19358, description = ''NETFLIX.COM'', amount = 1549 / 100\<rparr>,
           \<lparr>date = 19360, description = ''ACME STORAGE'', amount = 25\<rparr>,
           \<lparr>date = 19365, description = ''GROCERY STORE'', amount = 50\<rparr>,
           \<lparr>date = 19389, description = ''NETFLIX.COM'', amount = 1549 / 100\<rparr>,
           \<lparr>date = 19390, description = ''ACME STORAGE'', amount = 25\<rparr>,
           \<lparr>date = 19419, description = ''NETFLIX.COM'', amount = 1549 / 100\<rparr>]))
     = {''ACME STORAGE'', ''NETFLIX.COM''}"
proof -
  let ?df = "[\<lparr>date = Timestamp 19358, description = ''NETFLIX.COM'', amount = 1549 / 100\<rparr>,
      \<lparr>date = Timestamp 19360, description = ''ACME STORAGE'', amount = 25\<rparr>,
      \<lparr>date = Timestamp 19365, description = ''GROCERY STORE'', amount = 50\<rparr>,
      \<lparr>date = Timestamp 19389, description = ''NETFLIX.COM'', amount = 1549 / 100\<rparr>,
      \<lparr>date = Timestamp 19390, description = ''ACME STORAGE'', amount = 25\<rparr>,
      \<lparr>date = Timestamp 19419, description = ''NETFLIX.COM'', amount = 1549 / 100\<rparr>]"
  let ?ds = "[19358, 19360, 19365, 19389, 19390, 19419] :: int list"
  let ?rows = "[\<lparr>date = 19360, description = ''ACME STORAGE'', amount = 25,
            category = ''other'', monthly_cost = 25, frequency = ''unknown'',
            last_charge = 19360\<rparr>,
          \<lparr>date = 19419, description = ''NETFLIX.COM'', amount = 1549 / 100,
            category = ''streaming'', monthly_cost = 1549 / 100,
            frequency = ''monthly'', last_charge = 19419\<rparr>] :: subscription list"
  have h1: "to_datetime (\<lambda>s. None) (map date ?df) = Inr ?ds" by simp
  have h2: "snd (detect_subscriptions (\<lambda>s. None) ?df) = Inr ?rows" by code_simp
  have t: "typed ?df ?ds =
          [\<lparr>date = 19358, description = ''NETFLIX.COM'', amount = 1549 / 100\<rparr>,
           \<lparr>date = 19360, description = ''ACME STORAGE'', amount = 25\<rparr>,
           \<lparr>date = 19365, description = ''GROCERY STORE'', amount = 50\<rparr>,
           \<lparr>date = 19389, description = ''NETFLIX.COM'', amount = 1549 / 100\<rparr>,
           \<lparr>date = 19390, description = ''ACME STORAGE'', amount = 25\<rparr>,
           \<lparr>date = 19419, description = ''NETFLIX.COM'', amount = 1549 / 100\<rparr>]"
    by (simp add: typed_def)
  have eq: "set (map description ?rows) =
           description ` (set (find_keyword_matches (typed ?df ?ds))
                          \<union> set (find_recurring_patterns (typed ?df ?ds)))"
    by (rule one_row_per_description [OF h1 h2, THEN conjunct2])
  have "set (map description ?rows) = {''ACME STORAGE'', ''NETFLIX.COM''}" by simp
  with eq [symmetric] have c: "description ` (set (find_keyword_matches (typed ?df ?ds))
                          \<union> set (find_recurring_patterns (typed ?df ?ds)))
      = {''ACME STORAGE'', ''NETFLIX.COM''}" by (rule trans)
  show ?thesis using h2 c [unfolded t] by (rule conjI)
qed

section \<open>Savings opportunities: annual discount\<close>

lemma opp_type_annual_opportunity:
  "o' \<in> set (annual_opportunity sub) \<Longrightarrow> opp_type o' = ''annual_discount''"
  by (auto simp: annual_opportunity_def Let_def split: if_splits)

lemma annual_opportunities_eq:
  "concat (map annual_opportunity (filter (\<lambda>s. frequency s = ''monthly'') subs)) =
   map (\<lambda>s. Annual_discount (description s) (monthly_cost s) (monthly_cost s * 12 * (15 / 100)))
     (filter (\<lambda>s. frequency s = ''monthly'' \<and> 20 < monthly_cost s * 12 * (15 / 100)) subs)"
  by (induction subs) (simp_all add: annual_opportunity_def Let_def)

lemma duplicate_categories_eq:
  "map fst (filter (\<lambda>(cat, count). 1 < count)
      (map (\<lambda>(cat, grp). (cat, length grp)) (groupby category subs))) =
   filter (\<lambda>cat. 1 < length (filter (\<lambda>s. category s = cat) subs))
      (sort (remdups (map category subs)))"
  by (simp add: groupby_def filter_map comp_def)

lemma savings_opportunities_eq:
  "savings_opportunities subs =
     map (duplicate_opportunity subs)
       (filter (\<lambda>cat. 1 < length (filter (\<lambda>s. category s = cat) subs))
          (sort (remdups (map category subs))))
     @ concat (map annual_opportunity (filter (\<lambda>s. frequency s = ''monthly'') subs))"
  unfolding savings_opportunities_def Let_def duplicate_categories_eq by (rule refl)

lemma filter_eq_distinct:
  "distinct xs \<Longrightarrow> filter (\<lambda>x. x = c) xs = (if c \<in> set xs then [c] else [])"
  by (induction xs) auto

text \<open>
  Claim C5. \<open>savings_opportunities\<close> emits an \<open>annual_discount\<close> opportunity for a
  subscription exactly when its frequency is \<open>monthly\<close> and its monthly cost times 12
  times 0.15 is greater than 20, and the annual savings of that opportunity is the
  monthly cost times 12 times 0.15.
\<close>

theorem annual_discount_opportunities:
  "filter (\<lambda>o'. opp_type o' = ''annual_discount'') (savings_opportunities subs) =
   map (\<lambda>s. Annual_discount (description s) (monthly_cost s) (monthly_cost s * 12 * (15 / 100)))
     (filter (\<lambda>s. frequency s = ''monthly'' \<and> 20 < monthly_cost s * 12 * (15 / 100)) subs)"
proof -
  let ?P = "\<lambda>o'. opp_type o' = ''annual_discount''"
  let ?ann = "concat (map annual_opportunity (filter (\<lambda>s. frequency s = ''monthly'') subs))"
  have dup: "filter ?P (map (duplicate_opportunity subs) cats) = []" for cats
    by (simp add: filter_empty_conv duplicate_opportunity_def Let_def)
  have "\<forall>o' \<in> set ?ann. ?P o'" by (auto dest: opp_type_annual_opportunity)
  then have ann: "filter ?P ?ann = ?ann" by (simp add: filter_id_conv)
  have "filter ?P (savings_opportunities subs) = ?ann"
    by (simp only: savings_opportunities_eq filter_append dup ann append_Nil)
  then show ?thesis by (simp only: annual_opportunities_eq)
qed

theorem annual_discount_opportunities_witness:
  "filter (\<lambda>o'. opp_type o' = ''annual_discount'')
     (savings_opportunities
      [\<lparr>date = 19419, description = ''NETFLIX.COM'', amount = 50, category = ''streaming'',
         monthly_cost = 50, frequency = ''monthly'', last_charge = 19419\<rparr>,
       \<lparr>date = 19420, description = ''HULU'', amount = 5, category = ''streaming'',
         monthly_cost = 5, frequency = ''monthly'', last_charge = 19420\<rparr>,
       \<lparr>date = 19421, description = ''SPOTIFY USA'', amount = 10, category = ''music'',
         monthly_cost = 10, frequency = ''unknown'', last_charge = 19421\<rparr>])
   = [Annual_discount ''NETFLIX.COM'' 50 90]"
  by (simp add: annual_discount_opportunities)

section \<open>Categorization\<close>

lemma categorize_loop_iff:
  "categorize_loop cs s = c \<longleftrightarrow>
     (\<exists>before kws after. cs = before @ (c, kws) # after \<and>
        list_ex (\<lambda>k. sublist k s) kws \<and>
        (\<forall>p \<in> set before. \<not> list_ex (\<lambda>k. sublist k s) (snd p)))
     \<or> (c = ''other'' \<and> (\<forall>p \<in> set cs. \<not> list_ex (\<lambda>k. sublist k s) (snd p)))"
  (is "?loop cs = c \<longleftrightarrow> ?first cs \<or> ?none cs")
proof (induction cs)
  case Nil
  have "\<not> ?first []" by simp
  moreover have "?none [] \<longleftrightarrow> c = ''other''" by simp
  moreover have "?loop [] = ''other''" by simp
  ultimately show ?case by metis
next
  case (Cons p cs)
  obtain c0 kws0 where p: "p = (c0, kws0)" by (cases p)
  define M where "M = (\<lambda>kws. list_ex (\<lambda>k. sublist k s) kws)"
  show ?case
  proof (cases "M kws0")
    case True
    have f1: "?first (p # cs) \<longleftrightarrow> c0 = c"
    proof
      assume "?first (p # cs)"
      then obtain before kws after where e: "p # cs = before @ (c, kws) # after"
        and n: "\<forall>q \<in> set before. \<not> M (snd q)" unfolding M_def by blast
      show "c0 = c"
      proof (cases before)
        case Nil
        with e p show ?thesis by simp
      next
        case (Cons b bs)
        with e p have "(c0, kws0) \<in> set before" by simp
        with n have "\<not> M kws0" by force
        with True show ?thesis by simp
      qed
    next
      assume "c0 = c"
      with p have "p # cs = [] @ (c, kws0) # cs" by simp
      moreover have "\<forall>q \<in> set ([] :: (string \<times> string list) list).
          \<not> list_ex (\<lambda>k. sublist k s) (snd q)" by simp
      moreover from True have "list_ex (\<lambda>k. sublist k s) kws0" by (simp add: M_def)
      ultimately show "?first (p # cs)" by blast
    qed
    have f2: "\<not> ?none (p # cs)"
    proof
      assume "?none (p # cs)"
      then have "\<not> list_ex (\<lambda>k. sublist k s) (snd p)" by simp
      with True p show False by (simp add: M_def)
    qed
    have f3: "?loop (p # cs) = c0"
      using True p by (simp add: M_def)
    have "(?loop (p # cs) = c) = (c0 = c)" by (simp only: f3)
    also have "\<dots> = ?first (p # cs)" by (rule f1 [symmetric])
    also have "\<dots> = (?first (p # cs) \<or> ?none (p # cs))" using f2 by blast
    finally show ?thesis .
  next
    case False
    have a: "?first (p # cs) \<longleftrightarrow> ?first cs"
    proof
      assume "?first (p # cs)"
      then obtain before kws after where e: "p # cs = before @ (c, kws) # after"
        and m: "M kws"
        and n: "\<forall>q \<in> set before. \<not> M (snd q)" unfolding M_def by blast
      show "?first cs"
      proof (cases before)
        case Nil
        with e p have "kws0 = kws" by simp
        with m False show ?thesis by simp
      next
        case (Cons b bs)
        with e have "cs = bs @ (c, kws) # after" by simp
        moreover from n Cons have "\<forall>q \<in> set bs. \<not> M (snd q)" by simp
        ultimately show ?thesis using m unfolding M_def by blast
      qed
    next
      assume "?first cs"
      then obtain before kws after where e: "cs = before @ (c, kws) # after"
        and m: "M kws"
        and n: "\<forall>q \<in> set before. \<not> M (snd q)" unfolding M_def by blast
      from e have "p # cs = (p # before) @ (c, kws) # after" by simp
      moreover from n p False have "\<forall>q \<in> set (p # before). \<not> M (snd q)" by simp
      ultimately show "?first (p # cs)" using m unfolding M_def by blast
    qed
    have b: "?none (p # cs) \<longleftrightarrow> ?none cs"
      using False p by (simp add: M_def)
    have l: "?loop (p # cs) = ?loop cs"
      using False p by (simp add: M_def)
    have "(?loop (p # cs) = c) = (?loop cs = c)" by (simp only: l)
    also have "\<dots> = (?first cs \<or> ?none cs)" by (rule Cons.IH)
    also have "\<dots> = (?first (p # cs) \<or> ?none (p # cs))" by (simp only: a b)
    finally show ?thesis .
  qed
qed

text \<open>
  Claim C6. \<open>_categorize_subscription\<close> returns the first category, in the order of the
  category mapping, one of whose keywords occurs in the lower-cased description, and
  \<open>other\<close> when no keyword of any category occurs in it. As a function of the
  description alone, it gives the same category at every call.
\<close>

theorem categorize_first_match:
  "categorize_subscription d = c \<longleftrightarrow>
     (\<exists>before kws after. categories = before @ (c, kws) # after \<and>
        (\<exists>k \<in> set kws. sublist k (lower d)) \<and>
        (\<forall>p \<in> set before. \<forall>k \<in> set (snd p). \<not> sublist k (lower d)))
     \<or> (c = ''other'' \<and> (\<forall>p \<in> set categories. \<forall>k \<in> set (snd p). \<not> sublist k (lower d)))"
  by (simp add: categorize_subscription_def categorize_loop_iff list_ex_iff)

theorem categorize_first_match_witness:
  "categorize_subscription ''Spotify + NETFLIX bundle'' = ''streaming'' \<and>
   categorize_subscription ''GROCERY STORE'' = ''other''"
proof -
  have l: "lower ''Spotify + NETFLIX bundle'' = ''spotify + netflix bundle''" by code_simp
  have s: "sublist ''netflix'' ''spotify + netflix bundle''" by code_simp
  have "categories = [] @ (''streaming'', [''netflix'', ''hulu'', ''disney+'', ''hbo'',
      ''paramount+'', ''peacock'', ''youtube premium'']) # tl categories"
    by (simp add: categories_def)
  moreover have "\<exists>k \<in> set [''netflix'', ''hulu'', ''disney+'', ''hbo'',
      ''paramount+'', ''peacock'', ''youtube premium'']. sublist k (lower ''Spotify + NETFLIX bundle'')"
    using s l by simp
  moreover have "\<forall>p \<in> set ([] :: (string \<times> string list) list). \<forall>k \<in> set (snd p).
      \<not> sublist k (lower ''Spotify + NETFLIX bundle'')" by simp
  ultimately have a: "categorize_subscription ''Spotify + NETFLIX bundle'' = ''streaming''"
    using categorize_first_match [of "''Spotify + NETFLIX bundle''" "''streaming''"] by blast
  have "\<forall>p \<in> set categories. \<forall>k \<in> set (snd p). \<not> sublist k (lower ''GROCERY STORE'')"
    by code_simp
  then have b: "categorize_subscription ''GROCERY STORE'' = ''other''"
    using categorize_first_match [of "''GROCERY STORE''" "''other''"] by blast
  from a b show ?thesis by (rule conjI)
qed

section \<open>The caller's table\<close>

lemma to_datetime_length: "to_datetime parse cs = Inr ds \<Longrightarrow> length ds = length cs"
  by (induction cs arbitrary: ds) (auto split: option.splits sum.splits)

lemma set_date_column_dates:
  "length ds = length df \<Longrightarrow> map date (set_date_column df ds) = map Timestamp ds"
  by (induction df arbitrary: ds) (auto simp: set_date_column_def length_Suc_conv)

lemma set_date_column_others:
  "length ds = length df \<Longrightarrow>
     map description (set_date_column df ds) = map description df \<and>
     map amount (set_date_column df ds) = map amount df"
  by (induction df arbitrary: ds) (auto simp: set_date_column_def length_Suc_conv)

text \<open>
  Claim C7. \<open>detect_subscriptions\<close> should leave the caller's table as it was, every
  field of every row. Its first statement assigns the converted column to
  \<open>transactions_df['date']\<close>, though: whenever the conversion succeeds, every text date
  of the caller's table has become a timestamp. The descriptions and the amounts stay.
\<close>

theorem detect_subscriptions_rewrites_dates:
  assumes "to_datetime parse (map date df) = Inr ds"
    and "Text s \<in> set (map date df)"
  shows "fst (detect_subscriptions parse df) \<noteq> df \<and>
         map date (fst (detect_subscriptions parse df)) = map Timestamp ds \<and>
         map description (fst (detect_subscriptions parse df)) = map description df \<and>
         map amount (fst (detect_subscriptions parse df)) = map amount df"
proof -
  from assms(1) have len: "length ds = length df" by (simp add: to_datetime_length [OF assms(1)])
  from assms(1) have f: "fst (detect_subscriptions parse df) = set_date_column df ds"
    by (simp add: detect_subscriptions_def)
  from set_date_column_dates [OF len]
  have d: "map date (set_date_column df ds) = map Timestamp ds" .
  have "set_date_column df ds \<noteq> df"
  proof
    assume "set_date_column df ds = df"
    with d have "map date df = map Timestamp ds" by simp
    with assms(2) show False by auto
  qed
  with f d set_date_column_others [OF len] show ?thesis by simp
qed

theorem detect_subscriptions_rewrites_dates_witness:
  "fst (detect_subscriptions (\<lambda>s. if s = ''2023-01-01'' then Some 19358 else None)
     [\<lparr>date = Text ''2023-01-01'', description = ''NETFLIX.COM'', amount = 1549 / 100\<rparr>])
   \<noteq> [\<lparr>date = Text ''2023-01-01'', description = ''NETFLIX.COM'', amount = 1549 / 100\<rparr>]
   \<and> map date (fst (detect_subscriptions (\<lambda>s. if s = ''2023-01-01'' then Some 19358 else None)
     [\<lparr>date = Text ''2023-01-01'', description = ''NETFLIX.COM'', amount = 1549 / 100\<rparr>]))
     = [Timestamp 19358]"
proof -
  let ?parse = "\<lambda>s. if s = ''2023-01-01'' then Some (19358 :: int) else None"
  let ?df = "[\<lparr>date = Text ''2023-01-01'', description = ''NETFLIX.COM'', amount = 1549 / 100\<rparr>]"
  have h1: "to_datetime ?parse (map date ?df) = Inr [19358]" by simp
  have h2: "Text ''2023-01-01'' \<in> set (map date ?df)" by simp
  from detect_subscriptions_rewrites_dates [OF h1 h2] show ?thesis by simp
qed

section \<open>Savings opportunities: duplicate categories\<close>

text \<open>
  Claim C8. For each category, \<open>savings_opportunities\<close> emits one
  \<open>duplicate_category\<close> opportunity when the category has more than one subscription,
  listing the descriptions of all its members and the sum of their monthly costs, and
  none when it has at most one.
\<close>

theorem duplicate_category_opportunities:
  assumes "members = filter (\<lambda>s. category s = c) subs"
  shows "filter (\<lambda>o'. opp_type o' = ''duplicate_category'' \<and> opp_category o' = c)
           (savings_opportunities subs) =
         (if 1 < length members then
            [Duplicate_category c (map description members)
               (sum_list (map monthly_cost members))
               (''Consider consolidating '' @ c @ '' subscriptions'')]
          else [])"
proof -
  let ?P = "\<lambda>o'. opp_type o' = ''duplicate_category'' \<and> opp_category o' = c"
  let ?cats = "filter (\<lambda>cat. 1 < length (filter (\<lambda>s. category s = cat) subs))
      (sort (remdups (map category subs)))"
  let ?ann = "concat (map annual_opportunity (filter (\<lambda>s. frequency s = ''monthly'') subs))"
  have "\<forall>o' \<in> set ?ann. \<not> ?P o'" by (auto dest: opp_type_annual_opportunity)
  then have ann: "filter ?P ?ann = []" by (simp add: filter_empty_conv)
  have "filter ?P (map (duplicate_opportunity subs) ?cats)
      = map (duplicate_opportunity subs) (filter (\<lambda>cat. cat = c) ?cats)"
    by (simp add: filter_map comp_def duplicate_opportunity_def Let_def)
  also have "filter (\<lambda>cat. cat = c) ?cats = (if c \<in> set ?cats then [c] else [])"
    by (rule filter_eq_distinct) simp
  finally have dup: "filter ?P (map (duplicate_opportunity subs) ?cats)
      = (if c \<in> set ?cats then [duplicate_opportunity subs c] else [])" by simp
  have mem: "c \<in> set ?cats \<longleftrightarrow> 1 < length members"
  proof
    assume "c \<in> set ?cats"
    then show "1 < length members" by (simp add: assms)
  next
    assume m: "1 < length members"
    then have "members \<noteq> []" by auto
    then have "c \<in> category ` set subs" by (auto simp: assms filter_empty_conv)
    with m show "c \<in> set ?cats" by (simp add: assms)
  qed
  have "filter ?P (savings_opportunities subs)
      = (if c \<in> set ?cats then [duplicate_opportunity subs c] else [])"
    by (simp only: savings_opportunities_eq filter_append dup ann append_Nil2)
  with mem show ?thesis by (simp add: duplicate_opportunity_def Let_def assms)
qed


theorem duplicate_category_opportunities_witness:
  "filter (\<lambda>o'. opp_type o' = ''duplicate_category'' \<and> opp_category o' = ''streaming'')
     (savings_opportunities
      [\<lparr>date = 19419, description = ''NETFLIX.COM'', amount = 50, category = ''streaming'',
         monthly_cost = 50, frequency = ''monthly'', last_charge = 19419\<rparr>,
       \<lparr>date = 19420, description = ''HULU'', amount = 5, category = ''streaming'',
         monthly_cost = 5, frequency = ''monthly'', last_charge = 19420\<rparr>,
       \<lparr>date = 19421, description = ''SPOTIFY USA'', amount = 10, category = ''music'',
         monthly_cost = 10, frequency = ''unknown'', last_charge = 19421\<rparr>])
   = [Duplicate_category ''streaming'' [''NETFLIX.COM'', ''HULU''] 55
        ''Consider consolidating streaming subscriptions'']
   \<and> filter (\<lambda>o'. opp_type o' = ''duplicate_category'' \<and> opp_category o' = ''music'')
     (savings_opportunities
      [\<lparr>date = 19419, description = ''NETFLIX.COM'', amount = 50, category = ''streaming'',
         monthly_cost = 50, frequency = ''monthly'', last_charge = 19419\<rparr>,
       \<lparr>date = 19420, description = ''HULU'', amount = 5, category = ''streaming'',
         monthly_cost = 5, frequency = ''monthly'', last_charge = 19420\<rparr>,
       \<lparr>date = 19421, description = ''SPOTIFY USA'', amount = 10, category = ''music'',
         monthly_cost = 10, frequency = ''unknown'', last_charge = 19421\<rparr>])
   = []"
proof -
  let ?subs = "[\<lparr>date = 19419, description = ''NETFLIX.COM'', amount = 50, category = ''streaming'',
         monthly_cost = 50, frequency = ''monthly'', last_charge = 19419\<rparr>,
       \<lparr>date = 19420, description = ''HULU'', amount = 5, category = ''streaming'',
         monthly_cost = 5, frequency = ''monthly'', last_charge = 19420\<rparr>,
       \<lparr>date = 19421, description = ''SPOTIFY USA'', amount = 10, category = ''music'',
         monthly_cost = 10, frequency = ''unknown'', last_charge = 19421\<rparr>] :: subscription list"
  have "filter (\<lambda>o'. opp_type o' = ''duplicate_category'' \<and> opp_category o' = ''streaming'')
      (savings_opportunities ?subs)
    = [Duplicate_category ''streaming'' [''NETFLIX.COM'', ''HULU''] 55
        ''Consider consolidating streaming subscriptions'']"
    using duplicate_category_opportunities [OF refl, of "''streaming''" ?subs] by simp
  moreover
  have "filter (\<lambda>o'. opp_type o' = ''duplicate_category'' \<and> opp_category o' = ''music'')
      (savings_opportunities ?subs) = []"
    using duplicate_category_opportunities [OF refl, of "''music''" ?subs] by simp
  ultimately show ?thesis by (rule conjI)
qed

section \<open>Single occurrences and the frequency labels\<close>

text \<open>
  Claim C9. A description with exactly one row in the candidate table gets one row in
  the result, with frequency \<open>unknown\<close>, the amount of that row as monthly cost and its
  date as last charge.
\<close>

theorem single_occurrence_unknown:
  assumes "calculate_monthly_cost subs = Inr rows"
    and "filter (\<lambda>c. description c = d) subs = [t]"
  shows "\<exists>r. filter (\<lambda>r. description r = d) rows = [r] \<and>
      frequency r = ''unknown'' \<and> monthly_cost r = amount t \<and> last_charge r = date t"
proof -
  have "t \<in> set (filter (\<lambda>c. description c = d) subs)" by (simp add: assms(2))
  then have d: "d \<in> description ` set subs" by auto
  from row_of_description [OF assms(1) d] obtain r
    where one: "filter (\<lambda>r. description r = d) rows = [r]"
      and r: "cost_of_group (filter (\<lambda>c. description c = d) subs) = Inr r" by blast
  from r have "r = with_cost t (amount t) ''unknown'' (date t)"
    by (simp add: assms(2) cost_of_group_def single_occurrence_def)
  then have "frequency r = ''unknown'' \<and> monthly_cost r = amount t \<and> last_charge r = date t"
    by (simp add: with_cost_def)
  with one show ?thesis by blast
qed

theorem single_occurrence_unknown_witness:
  "calculate_monthly_cost
     [\<lparr>date = 19400, description = ''DOMAIN REGISTRATION'', amount = 120, category = ''other''\<rparr>]
   = Inr [\<lparr>date = 19400, description = ''DOMAIN REGISTRATION'', amount = 120,
           category = ''other'', monthly_cost = 120, frequency = ''unknown'',
           last_charge = 19400\<rparr>]
   \<and> (\<exists>r. filter (\<lambda>r. description r = ''DOMAIN REGISTRATION'')
             [\<lparr>date = 19400, description = ''DOMAIN REGISTRATION'', amount = 120,
               category = ''other'', monthly_cost = 120, frequency = ''unknown'',
               last_charge = 19400\<rparr>] = [r]
          \<and> frequency r = ''unknown'' \<and> monthly_cost r = 120 \<and> last_charge r = 19400)"
proof -
  let ?t = "\<lparr>date = 19400, description = ''DOMAIN REGISTRATION'', amount = 120, category = ''other''\<rparr>"
  let ?rows = "[\<lparr>date = 19400, description = ''DOMAIN REGISTRATION'', amount = 120,
           category = ''other'', monthly_cost = 120, frequency = ''unknown'',
           last_charge = 19400\<rparr>]"
  have h1: "calculate_monthly_cost [?t] = Inr ?rows" by code_simp
  have h2: "filter (\<lambda>c. description c = ''DOMAIN REGISTRATION'') [?t] = [?t]" by simp
  from single_occurrence_unknown [OF h1 h2]
  have "\<exists>r. filter (\<lambda>r. description r = ''DOMAIN REGISTRATION'') ?rows = [r] \<and>
          frequency r = ''unknown'' \<and> monthly_cost r = 120 \<and> last_charge r = 19400"
    by simp
  with h1 show ?thesis by blast
qed

text \<open>
  Claim C10. The frequency of every emitted Subscription is one of the four values of
  the data model: \<open>monthly\<close>, \<open>annual\<close>, \<open>unknown\<close>, or a custom interval, which
  the source writes as \<open>every N days\<close> with \<open>N\<close> the rounded mean gap, an integer
  that is not negative.
\<close>

theorem frequency_values:
  assumes "snd (detect_subscriptions parse df) = Inr rows" and "r \<in> set rows"
  shows "frequency r = ''monthly'' \<or> frequency r = ''annual'' \<or> frequency r = ''unknown'' \<or>
         (\<exists>n. 0 \<le> n \<and> frequency r = ''every '' @ str_int n @ '' days'')"
proof -
  from detect_subscriptions_Inr [OF assms(1)] obtain subs
    where calc: "calculate_monthly_cost subs = Inr rows" by blast
  let ?g = "filter (\<lambda>c. description c = description r) subs"
  let ?gap = "average (intervals_of (map date (sort_key date ?g)))"
  from calculate_rows(2) [OF calc assms(2)] have r: "cost_of_group ?g = Inr r" .
  have "0 \<le> py_round ?gap" using mean_gap_nonneg by (rule py_round_nonneg)
  moreover from r have
    "frequency r = ''monthly'' \<or> frequency r = ''annual'' \<or> frequency r = ''unknown'' \<or>
     frequency r = ''every '' @ str_int (py_round ?gap) @ '' days''"
    by (cases ?g)
       (auto simp: cost_of_group_def single_occurrence_def with_cost_def Let_def
             split: if_splits)
  ultimately show ?thesis by blast
qed

theorem frequency_values_witness:
  "snd (detect_subscriptions (\<lambda>s. None)
     [\<lparr>date = Timestamp 19358, description = ''SPOTIFY USA'', amount = 10\<rparr>,
      \<lparr>date = Timestamp 19418, description = ''SPOTIFY USA'', amount = 10\<rparr>])
   = Inr [\<lparr>date = 19418, description = ''SPOTIFY USA'', amount = 10, category = ''music'',
           monthly_cost = 5, frequency = ''every 60 days'', last_charge = 19418\<rparr>]
   \<and> (\<exists>n. 0 \<le> n \<and> ''every 60 days'' = ''every '' @ str_int n @ '' days'')"
proof -
  let ?df = "[\<lparr>date = Timestamp 19358, description = ''SPOTIFY USA'', amount = 10\<rparr>,
      \<lparr>date = Timestamp 19418, description = ''SPOTIFY USA'', amount = 10\<rparr>]"
  let ?r = "\<lparr>date = 19418, description = ''SPOTIFY USA'', amount = 10, category = ''music'',
           monthly_cost = 5, frequency = ''every 60 days'', last_charge = 19418\<rparr>"
  have h1: "snd (detect_subscriptions (\<lambda>s. None) ?df) = Inr [?r]" by code_simp
  have h2: "?r \<in> set [?r]" by simp
  from frequency_values [OF h1 h2]
  have "\<exists>n. 0 \<le> n \<and> ''every 60 days'' = ''every '' @ str_int n @ '' days''" by simp
  with h1 show ?thesis by blast
qed

end
